theory Spec2Isabelle
  imports Main
begin

section \<open>Strings of code points\<close>

text \<open>
  A Python \<open>str\<close> is a sequence of Unicode code points, and \<open>mandarin_converter.py\<close>
  compares characters with the literals U+4E00 and U+9FFF, which lie far beyond
  one byte. A string is therefore a list of code points, each a natural number, and a
  character is a code point. ASCII literals are written with \<open>ascii\<close>.
\<close>

type_synonym pystr = "nat list"

definition ascii :: "string \<Rightarrow> pystr" where
  "ascii s = map of_char s"

text \<open>
  \<open>str.strip()\<close> without argument removes leading and trailing whitespace, where
  whitespace is what \<open>str.isspace\<close> accepts: the code points below.
\<close>

definition py_isspace :: "nat \<Rightarrow> bool" where
  "py_isspace c \<longleftrightarrow>
     (0x09 \<le> c \<and> c \<le> 0x0D) \<or> (0x1C \<le> c \<and> c \<le> 0x20) \<or> c = 0x85 \<or> c = 0xA0 \<or>
     c = 0x1680 \<or> (0x2000 \<le> c \<and> c \<le> 0x200A) \<or> c = 0x2028 \<or> c = 0x2029 \<or>
     c = 0x202F \<or> c = 0x205F \<or> c = 0x3000"

definition strip :: "pystr \<Rightarrow> pystr" where
  "strip s = rev (dropWhile py_isspace (rev (dropWhile py_isspace s)))"

section \<open>The script classifier\<close>

text \<open>
  \<open>is_chinese\<close> walks the characters and returns at the first one between
  U+4E00 and U+9FFF; two one-character strings compare by code point.
\<close>

fun is_chinese :: "pystr \<Rightarrow> bool" where
  "is_chinese [] = False"
| "is_chinese (char # text) =
     (if 0x4E00 \<le> char \<and> char \<le> 0x9FFF then True else is_chinese text)"

section \<open>Records, collaborators and the state of a run\<close>

text \<open>
  One entry of \<open>results\<close>: the dictionary that \<open>process_text\<close> appends for a word.
  The key \<open>'is_chinese'\<close> is the field \<open>is_chinese_key\<close>, since \<open>is_chinese\<close> is
  the classifier.
\<close>

record annotated_word =
  chinese :: pystr
  pinyin :: pystr
  dutch :: pystr
  hsk_level :: int
  frequency :: int
  breakdown :: "(pystr \<times> pystr) list option"
  is_chinese_key :: bool

text \<open>
  What a run does besides computing its result: the calls it makes to its
  collaborators and the warnings it prints.
\<close>

datatype event =
    Translate_call pystr
  | Pinyin_call pystr
  | Hsk_level_call pystr
  | Breakdown_call pystr
  | Print pystr

text \<open>
  The collaborators of the pipeline. \<open>jieba_cut\<close> is \<open>jieba.cut\<close>; \<open>pinyin_tone\<close>
  is \<open>pypinyin.pinyin\<close> with \<open>Style.TONE\<close>, which gives for every syllable a
  non-empty list of readings, here the first reading and the others, so that
  \<open>p[0]\<close> is the first component. \<open>translator_translate\<close> is
  \<open>GoogleTranslator.translate\<close>: a remote service with a state of its own
  (\<open>'t\<close>), answering with a translation (\<open>Inr\<close>) or raising an exception with a
  message (\<open>Inl\<close>). \<open>get_hsk_level\<close> and \<open>get_character_breakdown\<close> come from
  the module \<open>hsk_data\<close>, whose source is not part of the development: they are
  lookups in static tables and are taken as total functions.
\<close>

record 't collaborators =
  jieba_cut :: "pystr \<Rightarrow> pystr list"
  pinyin_tone :: "pystr \<Rightarrow> (pystr \<times> pystr list) list"
  translator_translate :: "'t \<Rightarrow> pystr \<Rightarrow> (pystr + pystr) \<times> 't"
  get_hsk_level :: "pystr \<Rightarrow> int \<times> int"
  get_character_breakdown :: "pystr \<Rightarrow> (pystr \<times> pystr) list option"

text \<open>
  The state threaded through the loop of \<open>process_text\<close>: the in-memory
  translation cache (a dictionary from word to translation), the translator's state
  and the events so far.
\<close>

record 't run_state =
  cache :: "pystr \<rightharpoonup> pystr"
  translator :: 't
  log :: "event list"

section \<open>The translation cache file\<close>

text \<open>
  The exceptions that reading the cache file can raise: \<open>IOError\<close> (an alias of
  \<open>OSError\<close>) from \<open>open\<close> or \<open>read\<close>, \<open>JSONDecodeError\<close> from \<open>json.load\<close> on
  text that is not JSON, \<open>UnicodeDecodeError\<close> from reading bytes that are not
  UTF-8 (the file is opened with \<open>encoding='utf-8'\<close>), and \<open>RecursionError\<close> from
  \<open>json.load\<close> on a document nested too deeply. \<open>JSONDecodeError\<close> and
  \<open>UnicodeDecodeError\<close> are both subclasses of \<open>ValueError\<close>, and neither is a
  subclass of the other.
\<close>

datatype py_exception = JSONDecodeError | IOError | UnicodeDecodeError | RecursionError

text \<open>
  What is on disk under \<open>TRANSLATION_CACHE_FILE\<close>: nothing, or a file whose
  reading either raises or yields the stored dictionary. The file is written by
  \<open>save_translation_cache\<close> alone, so a document that parses is a flat object of
  strings, as the annotation \<open>Dict[str, str]\<close> says.
\<close>

datatype read_result = Raises py_exception | Parsed "pystr \<rightharpoonup> pystr"

datatype cache_file = Missing | Present read_result

fun load_translation_cache :: "cache_file \<Rightarrow> py_exception + (pystr \<rightharpoonup> pystr)" where
  "load_translation_cache Missing = Inr Map.empty"
| "load_translation_cache (Present (Parsed d)) = Inr d"
| "load_translation_cache (Present (Raises e)) =
     (if e = JSONDecodeError \<or> e = IOError then Inr Map.empty else Inl e)"

text \<open>
  The world outside a run: the cache file, the translator's state, and what the
  file system will do with the next write of the cache file: nothing wrong
  (\<open>None\<close>), or an \<open>IOError\<close> with a message, leaving some file behind
  (\<open>open(..., 'w')\<close> may fail before it touches the file, or the write may stop
  part-way).
\<close>

record 't world =
  cache_file :: cache_file
  write_fault :: "(pystr \<times> cache_file) option"
  service :: 't

definition save_translation_cache ::
    "'t world \<Rightarrow> (pystr \<rightharpoonup> pystr) \<Rightarrow> event list \<times> 't world" where
  "save_translation_cache w d =
     (case write_fault w of
        None \<Rightarrow> ([], w\<lparr>cache_file := Present (Parsed d)\<rparr>)
      | Some (e, left) \<Rightarrow>
          ([Print (ascii ''Warning: Could not save translation cache: '' @ e)],
           w\<lparr>cache_file := left\<rparr>))"

section \<open>Annotating one word\<close>

definition get_pinyin :: "'t collaborators \<Rightarrow> pystr \<Rightarrow> pystr" where
  "get_pinyin env text = concat (map fst (pinyin_tone env text))"

definition segment_text :: "'t collaborators \<Rightarrow> pystr \<Rightarrow> pystr list" where
  "segment_text env text = jieba_cut env text"

text \<open>
  The punctuation literal of \<open>translate_word\<close>, with the code points it has in
  the source file as stored: two adjacent literals, which Python concatenates.
\<close>

definition punctuation :: pystr where
  "punctuation =
     [0x201E, 0xC4, 0xC7, 0xD4, 0xBA, 0xE5, 0xD4, 0xBA, 0xC5, 0xD4, 0xBA, 0xFC,
      0x201E, 0xC4, 0xC5, 0xD4, 0xBA, 0xF5, 0xD4, 0xBA, 0xF6, 0x22, 0x22]
     @
     [0xD4, 0xBA, 0xE0, 0xD4, 0xBA, 0xE2, 0x201E, 0xC4, 0xEA, 0x201E, 0xC4, 0xEB,
      0x201E, 0xC4, 0xE4, 0x201E, 0xC4, 0xE3, 0x201A, 0xC4, 0xB6, 0x201A, 0xC4, 0xEE]"

definition translate_warning :: "pystr \<Rightarrow> pystr \<Rightarrow> pystr" where
  "translate_warning word e =
     ascii ''Warning: Could not translate '' @ [0x27] @ word @ [0x27] @ ascii '': '' @ e"

text \<open>
  \<open>translate_word\<close> returns the gloss and the state it leaves. The \<open>try\<close> block
  covers the call of the translator and the store into the cache; \<open>except
  Exception\<close> prints the warning and returns \<open>"?"\<close>.
\<close>

definition translate_word ::
    "'t collaborators \<Rightarrow> pystr \<Rightarrow> 't run_state \<Rightarrow> pystr \<times> 't run_state" where
  "translate_word env word st =
     (if strip word = [] \<or> list_all (\<lambda>c. c \<in> set punctuation) word then (word, st)
      else case cache st word of
        Some translation \<Rightarrow> (translation, st)
      | None \<Rightarrow>
          (case translator_translate env (translator st) word of
             (Inr translation, t') \<Rightarrow>
               (translation,
                st\<lparr>cache := (cache st)(word \<mapsto> translation), translator := t',
                   log := log st @ [Translate_call word]\<rparr>)
           | (Inl e, t') \<Rightarrow>
               (ascii ''?'',
                st\<lparr>translator := t',
                   log := log st @ [Translate_call word, Print (translate_warning word e)]\<rparr>)))"

text \<open>
  The body of the loop of \<open>process_text\<close>, for one token of the segmenter: the
  results so far and the state, before and after.
\<close>

definition process_word ::
    "'t collaborators \<Rightarrow> pystr \<Rightarrow> annotated_word list \<times> 't run_state
       \<Rightarrow> annotated_word list \<times> 't run_state" where
  "process_word env token rs =
     (let (results, st) = rs; word = strip token in
      if word = [] then (results, st)
      else if is_chinese word then
        (let word_pinyin = get_pinyin env word;
             st1 = st\<lparr>log := log st @ [Pinyin_call word]\<rparr>;
             (dutch_translation, st2) = translate_word env word st1;
             (level, freq) = get_hsk_level env word;
             st3 = st2\<lparr>log := log st2 @ [Hsk_level_call word]\<rparr>;
             bd = get_character_breakdown env word;
             st4 = st3\<lparr>log := log st3 @ [Breakdown_call word]\<rparr>
         in (results @
               [\<lparr>chinese = word, pinyin = word_pinyin, dutch = dutch_translation,
                 hsk_level = level, frequency = freq, breakdown = bd,
                 is_chinese_key = True\<rparr>],
             st4))
      else
        (results @
           [\<lparr>chinese = word, pinyin = word, dutch = word, hsk_level = 0, frequency = 0,
             breakdown = None, is_chinese_key = False\<rparr>],
         st))"

fun process_words ::
    "'t collaborators \<Rightarrow> pystr list \<Rightarrow> annotated_word list \<times> 't run_state
       \<Rightarrow> annotated_word list \<times> 't run_state" where
  "process_words env [] rs = rs"
| "process_words env (token # words) rs = process_words env words (process_word env token rs)"

section \<open>The pipeline\<close>

text \<open>
  \<open>process_text\<close> loads the cache, segments, runs the loop and saves the cache.
  An exception that \<open>load_translation_cache\<close> lets through ends the run. The
  result is the list of records, the events of the run and the world it leaves.
\<close>

definition process_text ::
    "'t collaborators \<Rightarrow> pystr \<Rightarrow> 't world
       \<Rightarrow> py_exception + (annotated_word list \<times> event list \<times> 't world)" where
  "process_text env chinese_text w =
     (case load_translation_cache (cache_file w) of
        Inl e \<Rightarrow> Inl e
      | Inr d \<Rightarrow>
          (let words = segment_text env chinese_text;
               (results, st) =
                 process_words env words
                   ([], \<lparr>cache = d, translator = service w, log = []\<rparr>);
               (warnings, w') = save_translation_cache (w\<lparr>service := translator st\<rparr>) (cache st)
           in Inr (results, log st @ warnings, w')))"

section \<open>The vocabulary summary\<close>

text \<open>
  \<open>{r['chinese']: r for r in chinese_words}\<close> builds a dictionary, which keeps
  its keys in the order of their first insertion; storing under a key that is
  there replaces the value and leaves the key where it is. \<open>dict_setitem\<close> is that
  store on a list of items, and \<open>unique_words\<close> the list of the values.
\<close>

definition chinese_words :: "annotated_word list \<Rightarrow> annotated_word list" where
  "chinese_words results = filter is_chinese_key results"

fun dict_setitem :: "('k \<times> 'v) list \<Rightarrow> 'k \<Rightarrow> 'v \<Rightarrow> ('k \<times> 'v) list" where
  "dict_setitem [] k v = [(k, v)]"
| "dict_setitem ((k', v') # items) k v =
     (if k' = k then (k', v) # items else (k', v') # dict_setitem items k v)"

definition unique_words :: "annotated_word list \<Rightarrow> annotated_word list" where
  "unique_words results =
     map snd (foldl (\<lambda>d r. dict_setitem d (chinese r) r) [] (chinese_words results))"

section \<open>The entry point\<close>

text \<open>
  \<open>main\<close>, from what reading \<open>input.txt\<close> gives: the text, or the exception
  that \<open>open\<close> or \<open>read\<close> raises (the file is read as UTF-8, outside any
  \<open>try\<close>), which ends the program. \<open>main\<close> strips the text, leaves with
  \<open>sys.exit(1)\<close> after printing a message when nothing remains, and otherwise runs
  the pipeline and computes the summary. The progress messages and the rendering
  of the page are not part of the model.
\<close>

datatype py_exit = SystemExit int | Uncaught py_exception

definition empty_input_message :: pystr where
  "empty_input_message =
     [0x201A, 0xF9, 0xE5] @
     ascii '' Het invoerbestand is leeg. Voeg Chinese tekst toe aan input.txt''"

definition main ::
    "'t collaborators \<Rightarrow> py_exception + pystr \<Rightarrow> 't world
       \<Rightarrow> (py_exit + annotated_word list \<times> annotated_word list) \<times> event list \<times> 't world" where
  "main env input w =
     (case input of
        Inl e \<Rightarrow> (Inl (Uncaught e), [], w)
      | Inr file_text \<Rightarrow>
          (let chinese_text = strip file_text in
           if chinese_text = [] then (Inl (SystemExit 1), [Print empty_input_message], w)
           else case process_text env chinese_text w of
             Inl e \<Rightarrow> (Inl (Uncaught e), [], w)
           | Inr (results, events, w') \<Rightarrow> (Inr (results, unique_words results), events, w')))"

text \<open>
  The outcome of a run, taken apart: its records, its events, and the world after
  it (the world it started in when the run ended with an exception).
\<close>

definition results_of ::
    "py_exception + (annotated_word list \<times> event list \<times> 't world) \<Rightarrow> annotated_word list" where
  "results_of out = (case out of Inl e \<Rightarrow> [] | Inr (results, events, w') \<Rightarrow> results)"

definition events_of ::
    "py_exception + (annotated_word list \<times> event list \<times> 't world) \<Rightarrow> event list" where
  "events_of out = (case out of Inl e \<Rightarrow> [] | Inr (results, events, w') \<Rightarrow> events)"

definition world_after ::
    "'t world \<Rightarrow> py_exception + (annotated_word list \<times> event list \<times> 't world) \<Rightarrow> 't world" where
  "world_after w out = (case out of Inl e \<Rightarrow> w | Inr (results, events, w') \<Rightarrow> w')"

section \<open>Test doubles for the collaborators\<close>

text \<open>
  Stand-ins for the collaborators, for running the pipeline on concrete texts. The
  segmenter makes a word of two adjacent ideographs and a token of any other
  character; the transcriber reads every character as itself; the translator's
  state is the number of calls that will still fail before it starts to answer;
  every word has level 1 and no breakdown.
\<close>

fun demo_cut :: "pystr \<Rightarrow> pystr list" where
  "demo_cut (c # d # s) =
     (if is_chinese [c] \<and> is_chinese [d] then [c, d] # demo_cut s else [c] # demo_cut (d # s))"
| "demo_cut [c] = [[c]]"
| "demo_cut [] = []"

definition demo_translate :: "nat \<Rightarrow> pystr \<Rightarrow> (pystr + pystr) \<times> nat" where
  "demo_translate n word =
     (if 0 < n then (Inl (ascii ''timeout''), n - 1) else (Inr (ascii ''nl:'' @ word), 0))"

definition demo_env :: "nat collaborators" where
  "demo_env =
     \<lparr>jieba_cut = demo_cut,
      pinyin_tone = (\<lambda>word. map (\<lambda>c. ([c], [])) word),
      translator_translate = demo_translate,
      get_hsk_level = (\<lambda>word. (1, 1)),
      get_character_breakdown = (\<lambda>word. None)\<rparr>"

definition demo_world :: "nat \<Rightarrow> nat world" where
  "demo_world n = \<lparr>cache_file = Missing, write_fault = None, service = n\<rparr>"

definition ni_hao :: pystr where
  "ni_hao = [0x4F60, 0x597D]"

definition shi_jie :: pystr where
  "shi_jie = [0x4E16, 0x754C]"

definition demo_record :: "pystr \<Rightarrow> pystr \<Rightarrow> annotated_word" where
  "demo_record word gloss =
     \<lparr>chinese = word, pinyin = word, dutch = gloss, hsk_level = 1, frequency = 1,
      breakdown = None, is_chinese_key = True\<rparr>"

definition comma_record :: annotated_word where
  "comma_record =
     \<lparr>chinese = [0xFF0C], pinyin = [0xFF0C], dutch = [0xFF0C], hsk_level = 0, frequency = 0,
      breakdown = None, is_chinese_key = False\<rparr>"

section \<open>The classifier\<close>

lemma is_chinese_iff: "is_chinese s \<longleftrightarrow> (\<exists>c \<in> set s. 0x4E00 \<le> c \<and> c \<le> 0x9FFF)"
  by (induction s) auto

section \<open>Stripping and punctuation\<close>

lemma dropWhile_unchanged: "xs = [] \<or> \<not> P (hd xs) \<Longrightarrow> dropWhile P xs = xs"
  by (cases xs) auto

lemma strip_last: "strip s \<noteq> [] \<Longrightarrow> \<not> py_isspace (last (strip s))"
  unfolding strip_def
  by (metis Nil_is_rev_conv hd_dropWhile last_rev)

lemma strip_hd: "strip s \<noteq> [] \<Longrightarrow> \<not> py_isspace (hd (strip s))"
proof -
  assume ne: "strip s \<noteq> []"
  let ?a = "dropWhile py_isspace s"
  have a: "?a \<noteq> []"
  proof
    assume e: "?a = []"
    have "strip s = rev (dropWhile py_isspace (rev ?a))" by (simp only: strip_def)
    also have "\<dots> = []" by (simp only: e rev.simps dropWhile.simps)
    finally show False using ne by simp
  qed
  then have h: "\<not> py_isspace (hd ?a)" by (rule hd_dropWhile)
  have "rev ?a \<noteq> []" using a by simp
  have "\<exists>ys. rev ?a = ys @ dropWhile py_isspace (rev ?a)"
    by (metis takeWhile_dropWhile_id)
  then obtain ys where ys: "rev ?a = ys @ dropWhile py_isspace (rev ?a)" by blast
  then have "?a = strip s @ rev ys" unfolding strip_def
    by (metis rev_append rev_rev_ident)
  then have "hd ?a = hd (strip s)" using ne by (metis hd_append2)
  then show ?thesis using h by simp
qed

lemma strip_idem: "strip (strip s) = strip s"
proof (cases "strip s = []")
  case True
  have "strip [] = []" by (simp add: strip_def)
  then show ?thesis by (simp only: True)
next
  case False
  have 1: "dropWhile py_isspace (strip s) = strip s"
    using strip_hd[OF False] by (simp add: dropWhile_unchanged)
  have 2: "dropWhile py_isspace (rev (strip s)) = rev (strip s)"
    using strip_last[OF False] False by (simp add: dropWhile_unchanged hd_rev)
  show ?thesis
    by (subst (1) strip_def) (simp add: 1 2)
qed

lemma punctuation_not_ideographic: "c \<in> set punctuation \<Longrightarrow> \<not> (0x4E00 \<le> c \<and> c \<le> 0x9FFF)"
  by (auto simp: punctuation_def)

lemma chinese_not_punctuation: "is_chinese word \<Longrightarrow> \<not> list_all (\<lambda>c. c \<in> set punctuation) word"
  using punctuation_not_ideographic by (auto simp: is_chinese_iff list_all_iff)

lemma is_chinese_nonempty: "is_chinese word \<Longrightarrow> word \<noteq> []"
  by auto

section \<open>The steps of the loop\<close>

lemma translate_word_skip:
  "strip word = [] \<or> list_all (\<lambda>c. c \<in> set punctuation) word \<Longrightarrow>
   translate_word env word st = (word, st)"
  by (simp add: translate_word_def)

lemma translate_word_cached:
  "\<not> (strip word = [] \<or> list_all (\<lambda>c. c \<in> set punctuation) word) \<Longrightarrow>
   cache st word = Some g \<Longrightarrow> translate_word env word st = (g, st)"
  by (simp add: translate_word_def)

lemma translate_word_translated:
  "\<not> (strip word = [] \<or> list_all (\<lambda>c. c \<in> set punctuation) word) \<Longrightarrow>
   cache st word = None \<Longrightarrow>
   translator_translate env (translator st) word = (Inr g, t') \<Longrightarrow>
   translate_word env word st =
     (g, st\<lparr>cache := (cache st)(word \<mapsto> g), translator := t',
            log := log st @ [Translate_call word]\<rparr>)"
  by (simp add: translate_word_def)

lemma translate_word_failed:
  "\<not> (strip word = [] \<or> list_all (\<lambda>c. c \<in> set punctuation) word) \<Longrightarrow>
   cache st word = None \<Longrightarrow>
   translator_translate env (translator st) word = (Inl e, t') \<Longrightarrow>
   translate_word env word st =
     (ascii ''?'',
      st\<lparr>translator := t',
         log := log st @ [Translate_call word, Print (translate_warning word e)]\<rparr>)"
  by (simp add: translate_word_def)

lemma translate_word_cases:
  obtains (skip) "translate_word env word st = (word, st)"
  | (cached) g where "cache st word = Some g" "translate_word env word st = (g, st)"
  | (translated) g t' where "cache st word = None"
      "translate_word env word st =
         (g, st\<lparr>cache := (cache st)(word \<mapsto> g), translator := t',
                log := log st @ [Translate_call word]\<rparr>)"
  | (failed) e t' where "cache st word = None"
      "translate_word env word st =
         (ascii ''?'',
          st\<lparr>translator := t',
             log := log st @ [Translate_call word, Print (translate_warning word e)]\<rparr>)"
proof (cases "strip word = [] \<or> list_all (\<lambda>c. c \<in> set punctuation) word")
  case True
  then show ?thesis using skip translate_word_skip by blast
next
  case real: False
  show ?thesis
  proof (cases "cache st word")
    case (Some g)
    then show ?thesis using cached translate_word_cached[OF real] by blast
  next
    case None
    obtain r t' where tr: "translator_translate env (translator st) word = (r, t')"
      by (cases "translator_translate env (translator st) word")
    show ?thesis
    proof (cases r)
      case (Inl e)
      then show ?thesis using failed[OF None] translate_word_failed[OF real None] tr by blast
    next
      case (Inr g)
      then show ?thesis using translated[OF None] translate_word_translated[OF real None] tr by blast
    qed
  qed
qed

lemma translate_word_cache_mono: "cache st \<subseteq>\<^sub>m cache (snd (translate_word env word st))"
  by (cases rule: translate_word_cases[of env word st]) (auto simp: map_le_def)

lemma translate_word_log: "\<exists>evs. log (snd (translate_word env word st)) = log st @ evs"
  by (cases rule: translate_word_cases[of env word st]) auto

lemma translate_word_hit:
  "cache st w = Some g \<Longrightarrow>
   count_list (log (snd (translate_word env word st))) (Translate_call w) =
     count_list (log st) (Translate_call w)"
  by (cases rule: translate_word_cases[of env word st]) auto

lemma process_word_blank: "strip token = [] \<Longrightarrow> process_word env token (rs, st) = (rs, st)"
  by (simp add: process_word_def)

lemma process_word_other:
  "strip token \<noteq> [] \<Longrightarrow> \<not> is_chinese (strip token) \<Longrightarrow>
   process_word env token (rs, st) =
     (rs @ [\<lparr>chinese = strip token, pinyin = strip token, dutch = strip token,
              hsk_level = 0, frequency = 0, breakdown = None, is_chinese_key = False\<rparr>], st)"
  by (simp add: process_word_def Let_def)

lemma process_word_chinese:
  assumes "is_chinese (strip token)"
  shows "process_word env token (rs, st) =
     (rs @ [\<lparr>chinese = strip token, pinyin = get_pinyin env (strip token),
              dutch = fst (translate_word env (strip token)
                             (st\<lparr>log := log st @ [Pinyin_call (strip token)]\<rparr>)),
              hsk_level = fst (get_hsk_level env (strip token)),
              frequency = snd (get_hsk_level env (strip token)),
              breakdown = get_character_breakdown env (strip token),
              is_chinese_key = True\<rparr>],
      (snd (translate_word env (strip token)
              (st\<lparr>log := log st @ [Pinyin_call (strip token)]\<rparr>)))
        \<lparr>log := log (snd (translate_word env (strip token)
                            (st\<lparr>log := log st @ [Pinyin_call (strip token)]\<rparr>)))
                  @ [Hsk_level_call (strip token), Breakdown_call (strip token)]\<rparr>)"
proof -
  have "strip token \<noteq> []" using assms by auto
  then show ?thesis using assms
    by (simp add: process_word_def Let_def split_beta)
qed


lemma process_word_cases:
  obtains (blank) "strip token = []" "process_word env token (rs, st) = (rs, st)"
  | (other) "strip token \<noteq> []" "\<not> is_chinese (strip token)"
      "process_word env token (rs, st) =
         (rs @ [\<lparr>chinese = strip token, pinyin = strip token, dutch = strip token,
                 hsk_level = 0, frequency = 0, breakdown = None, is_chinese_key = False\<rparr>], st)"
  | (word) r st' where "is_chinese (strip token)"
      "process_word env token (rs, st) = (rs @ [r], st')"
      "chinese r = strip token" "is_chinese_key r"
  using process_word_blank process_word_other process_word_chinese
  by (metis annotated_word.select_convs(1,7))

lemma process_word_surface:
  "map chinese (fst (process_word env token (rs, st))) =
     map chinese rs @ filter (\<lambda>s. s \<noteq> []) [strip token]"
  by (cases rule: process_word_cases[of token env rs st]) auto

lemma process_words_surface:
  "map chinese (fst (process_words env tokens (rs, st))) =
     map chinese rs @ filter (\<lambda>s. s \<noteq> []) (map strip tokens)"
proof (induction tokens arbitrary: rs st)
  case Nil
  then show ?case by simp
next
  case (Cons token tokens)
  obtain rs' st' where step: "process_word env token (rs, st) = (rs', st')"
    by (cases "process_word env token (rs, st)")
  have "map chinese rs' = map chinese rs @ filter (\<lambda>s. s \<noteq> []) [strip token]"
    using process_word_surface[of env token rs st] step by simp
  then show ?case using Cons.IH[of rs' st'] step by simp
qed

lemma process_words_append:
  "process_words env (xs @ ys) rs = process_words env ys (process_words env xs rs)"
  by (induction xs arbitrary: rs) auto

lemma process_word_cache_mono:
  "cache st \<subseteq>\<^sub>m cache (snd (process_word env token (rs, st)))"
proof (cases "is_chinese (strip token)")
  case True
  show ?thesis
    using translate_word_cache_mono[of "st\<lparr>log := log st @ [Pinyin_call (strip token)]\<rparr>" env "strip token"]
    by (simp add: process_word_chinese[OF True])
next
  case False
  then show ?thesis
    by (cases "strip token = []") (simp_all add: process_word_blank process_word_other)
qed

lemma process_words_cache_mono:
  "cache (snd rs) \<subseteq>\<^sub>m cache (snd (process_words env tokens rs))"
proof (induction tokens arbitrary: rs)
  case Nil
  then show ?case by simp
next
  case (Cons token tokens)
  have "cache (snd rs) \<subseteq>\<^sub>m cache (snd (process_word env token rs))"
    using process_word_cache_mono[of "snd rs" env token "fst rs"] by simp
  then show ?case using Cons.IH[of "process_word env token rs"]
    by (auto intro: map_le_trans)
qed

lemma chinese_word_is_translated:
  "is_chinese (strip token) \<Longrightarrow>
   \<not> (strip (strip token) = [] \<or> list_all (\<lambda>c. c \<in> set punctuation) (strip token))"
  using chinese_not_punctuation is_chinese_nonempty by (auto simp: strip_idem)

lemma process_word_hit:
  assumes "is_chinese (strip token)" and "cache st (strip token) = Some g"
  shows "process_word env token (rs, st) =
     (rs @ [\<lparr>chinese = strip token, pinyin = get_pinyin env (strip token), dutch = g,
              hsk_level = fst (get_hsk_level env (strip token)),
              frequency = snd (get_hsk_level env (strip token)),
              breakdown = get_character_breakdown env (strip token),
              is_chinese_key = True\<rparr>],
      st\<lparr>log := log st @ [Pinyin_call (strip token), Hsk_level_call (strip token),
                           Breakdown_call (strip token)]\<rparr>)"
proof -
  let ?st1 = "st\<lparr>log := log st @ [Pinyin_call (strip token)]\<rparr>"
  have "cache ?st1 (strip token) = Some g" using assms(2) by simp
  then have "translate_word env (strip token) ?st1 = (g, ?st1)"
    using translate_word_cached[OF chinese_word_is_translated[OF assms(1)]] by blast
  then show ?thesis by (simp add: process_word_chinese[OF assms(1)])
qed

lemma process_word_translated:
  assumes "is_chinese (strip token)" and "cache st (strip token) = None"
      and "translator_translate env (translator st) (strip token) = (Inr g, t')"
  shows "process_word env token (rs, st) =
     (rs @ [\<lparr>chinese = strip token, pinyin = get_pinyin env (strip token), dutch = g,
              hsk_level = fst (get_hsk_level env (strip token)),
              frequency = snd (get_hsk_level env (strip token)),
              breakdown = get_character_breakdown env (strip token),
              is_chinese_key = True\<rparr>],
      st\<lparr>cache := (cache st)(strip token \<mapsto> g), translator := t',
         log := log st @ [Pinyin_call (strip token), Translate_call (strip token),
                           Hsk_level_call (strip token), Breakdown_call (strip token)]\<rparr>)"
proof -
  let ?st1 = "st\<lparr>log := log st @ [Pinyin_call (strip token)]\<rparr>"
  have h1: "cache ?st1 (strip token) = None"
    and h2: "translator_translate env (translator ?st1) (strip token) = (Inr g, t')"
    using assms(2,3) by simp_all
  have "translate_word env (strip token) ?st1 =
      (g, ?st1\<lparr>cache := (cache ?st1)(strip token \<mapsto> g), translator := t',
                log := log ?st1 @ [Translate_call (strip token)]\<rparr>)"
    by (rule translate_word_translated[OF chinese_word_is_translated[OF assms(1)] h1 h2])
  then show ?thesis by (simp add: process_word_chinese[OF assms(1)])
qed

lemma process_word_failed:
  assumes "is_chinese (strip token)" and "cache st (strip token) = None"
      and "translator_translate env (translator st) (strip token) = (Inl e, t')"
  shows "process_word env token (rs, st) =
     (rs @ [\<lparr>chinese = strip token, pinyin = get_pinyin env (strip token), dutch = ascii ''?'',
              hsk_level = fst (get_hsk_level env (strip token)),
              frequency = snd (get_hsk_level env (strip token)),
              breakdown = get_character_breakdown env (strip token),
              is_chinese_key = True\<rparr>],
      st\<lparr>translator := t',
         log := log st @ [Pinyin_call (strip token), Translate_call (strip token),
                           Print (translate_warning (strip token) e),
                           Hsk_level_call (strip token), Breakdown_call (strip token)]\<rparr>)"
proof -
  let ?st1 = "st\<lparr>log := log st @ [Pinyin_call (strip token)]\<rparr>"
  have h1: "cache ?st1 (strip token) = None"
    and h2: "translator_translate env (translator ?st1) (strip token) = (Inl e, t')"
    using assms(2,3) by simp_all
  have "translate_word env (strip token) ?st1 =
      (ascii ''?'',
       ?st1\<lparr>translator := t',
            log := log ?st1 @ [Translate_call (strip token),
                                Print (translate_warning (strip token) e)]\<rparr>)"
    by (rule translate_word_failed[OF chinese_word_is_translated[OF assms(1)] h1 h2])
  then show ?thesis by (simp add: process_word_chinese[OF assms(1)])
qed

lemma process_word_shift:
  "process_word env token (rs, st) =
     (rs @ fst (process_word env token ([], st)), snd (process_word env token ([], st)))"
proof (cases "is_chinese (strip token)")
  case True
  show ?thesis by (simp add: process_word_chinese[OF True])
next
  case False
  then show ?thesis
    by (cases "strip token = []") (simp_all add: process_word_blank process_word_other)
qed

lemma process_words_shift:
  "process_words env tokens (rs, st) =
     (rs @ fst (process_words env tokens ([], st)), snd (process_words env tokens ([], st)))"
proof (induction tokens arbitrary: rs st)
  case Nil
  then show ?case by simp
next
  case (Cons token tokens)
  let ?p = "process_word env token ([], st)"
  have step: "process_word env token (rs, st) = (rs @ fst ?p, snd ?p)"
    by (rule process_word_shift)
  have a: "process_words env tokens (rs @ fst ?p, snd ?p) =
      ((rs @ fst ?p) @ fst (process_words env tokens ([], snd ?p)),
       snd (process_words env tokens ([], snd ?p)))"
    by (rule Cons.IH)
  have b: "process_words env tokens (fst ?p, snd ?p) =
      (fst ?p @ fst (process_words env tokens ([], snd ?p)),
       snd (process_words env tokens ([], snd ?p)))"
    by (rule Cons.IH)
  show ?case using a b by (simp add: step)
qed

lemma process_word_log: "\<exists>evs. log (snd (process_word env token (rs, st))) = log st @ evs"
proof (cases "is_chinese (strip token)")
  case True
  obtain evs where "log (snd (translate_word env (strip token)
       (st\<lparr>log := log st @ [Pinyin_call (strip token)]\<rparr>))) =
     log (st\<lparr>log := log st @ [Pinyin_call (strip token)]\<rparr>) @ evs"
    using translate_word_log by blast
  then show ?thesis by (simp add: process_word_chinese[OF True])
next
  case False
  then show ?thesis
    by (cases "strip token = []") (simp_all add: process_word_blank process_word_other)
qed

lemma process_words_log: "\<exists>evs. log (snd (process_words env tokens rs)) = log (snd rs) @ evs"
proof (induction tokens arbitrary: rs)
  case Nil
  then show ?case by simp
next
  case (Cons token tokens)
  obtain e1 where e1: "log (snd (process_word env token rs)) = log (snd rs) @ e1"
    using process_word_log[of env token "fst rs" "snd rs"] by auto
  obtain e2 where "log (snd (process_words env tokens (process_word env token rs))) =
      log (snd (process_word env token rs)) @ e2"
    using Cons.IH by blast
  then show ?case using e1 by simp
qed

section \<open>The run as a whole\<close>

lemma process_text_run:
  assumes "load_translation_cache (cache_file w) = Inr d"
  shows "process_text env chinese_text w =
     Inr (fst (process_words env (segment_text env chinese_text)
                 ([], \<lparr>cache = d, translator = service w, log = []\<rparr>)),
          log (snd (process_words env (segment_text env chinese_text)
                 ([], \<lparr>cache = d, translator = service w, log = []\<rparr>)))
            @ fst (save_translation_cache
                    (w\<lparr>service := translator (snd (process_words env (segment_text env chinese_text)
                       ([], \<lparr>cache = d, translator = service w, log = []\<rparr>)))\<rparr>)
                    (cache (snd (process_words env (segment_text env chinese_text)
                       ([], \<lparr>cache = d, translator = service w, log = []\<rparr>))))),
          snd (save_translation_cache
                    (w\<lparr>service := translator (snd (process_words env (segment_text env chinese_text)
                       ([], \<lparr>cache = d, translator = service w, log = []\<rparr>)))\<rparr>)
                    (cache (snd (process_words env (segment_text env chinese_text)
                       ([], \<lparr>cache = d, translator = service w, log = []\<rparr>))))))"
  using assms by (simp add: process_text_def Let_def split_beta)

lemma process_text_raises:
  "load_translation_cache (cache_file w) = Inl e \<Longrightarrow> process_text env chinese_text w = Inl e"
  by (simp add: process_text_def)

lemma process_text_returns:
  "process_text env chinese_text w = Inr (results, events, w') \<Longrightarrow>
   \<exists>d. load_translation_cache (cache_file w) = Inr d"
  by (cases "load_translation_cache (cache_file w)") (simp_all add: process_text_def)

lemma save_prints_only: "Translate_call word \<notin> set (fst (save_translation_cache w d))"
  by (auto simp: save_translation_cache_def split: option.splits)

lemma save_written:
  "write_fault w = None \<Longrightarrow> save_translation_cache w d = ([], w\<lparr>cache_file := Present (Parsed d)\<rparr>)"
  by (simp add: save_translation_cache_def)

lemma load_recovers:
  "load_translation_cache Missing = Inr Map.empty"
  "load_translation_cache (Present (Raises JSONDecodeError)) = Inr Map.empty"
  "load_translation_cache (Present (Raises IOError)) = Inr Map.empty"
  by simp_all

lemma process_words_hit:
  assumes "cache st word = Some g"
  shows "count_list (log (snd (process_words env tokens (rs, st)))) (Translate_call word) =
           count_list (log st) (Translate_call word)
       \<and> cache (snd (process_words env tokens (rs, st))) word = Some g
       \<and> (\<forall>r \<in> set (fst (process_words env tokens ([], st))).
            chinese r = word \<and> is_chinese_key r \<longrightarrow> dutch r = g)"
  using assms
proof (induction tokens arbitrary: rs st)
  case Nil
  then show ?case by simp
next
  case (Cons token tokens)
  let ?p = "process_word env token ([], st)"
  have step: "process_word env token (rs, st) = (rs @ fst ?p, snd ?p)"
    by (rule process_word_shift)
  have keep: "cache (snd ?p) word = Some g"
    using process_word_cache_mono[of st env token "[]"] Cons.prems
    by (auto simp: map_le_def dom_def)
  have one: "count_list (log (snd ?p)) (Translate_call word) = count_list (log st) (Translate_call word)
      \<and> (\<forall>r \<in> set (fst ?p). chinese r = word \<and> is_chinese_key r \<longrightarrow> dutch r = g)"
  proof (cases "is_chinese (strip token)")
    case True
    let ?st1 = "st\<lparr>log := log st @ [Pinyin_call (strip token)]\<rparr>"
    have c1: "cache ?st1 word = Some g" using Cons.prems by simp
    have cnt: "count_list (log (snd (translate_word env (strip token) ?st1))) (Translate_call word) =
        count_list (log ?st1) (Translate_call word)"
      by (rule translate_word_hit[OF c1])
    have gl: "strip token = word \<longrightarrow> fst (translate_word env (strip token) ?st1) = g"
      using translate_word_cached[OF chinese_word_is_translated[OF True], of ?st1 g env] c1 by auto
    show ?thesis using cnt gl by (simp add: process_word_chinese[OF True])
  next
    case False
    then show ?thesis
      by (cases "strip token = []") (simp_all add: process_word_blank process_word_other)
  qed
  have A: "snd (process_words env (token # tokens) (rs, st)) =
      snd (process_words env tokens (rs @ fst ?p, snd ?p))"
    by (simp add: step)
  have "process_words env (token # tokens) ([], st) = process_words env tokens (fst ?p, snd ?p)"
    by simp
  then have B: "fst (process_words env (token # tokens) ([], st)) =
      fst ?p @ fst (process_words env tokens ([], snd ?p))"
    using process_words_shift[of env tokens "fst ?p" "snd ?p"] by simp
  have i1: "count_list (log (snd (process_words env tokens (rs @ fst ?p, snd ?p)))) (Translate_call word) =
           count_list (log (snd ?p)) (Translate_call word)
       \<and> cache (snd (process_words env tokens (rs @ fst ?p, snd ?p))) word = Some g
       \<and> (\<forall>r \<in> set (fst (process_words env tokens ([], snd ?p))).
            chinese r = word \<and> is_chinese_key r \<longrightarrow> dutch r = g)"
    by (rule Cons.IH[OF keep])
  show ?case unfolding A B using i1 one by auto
qed

lemma surfaces_stripped:
  "r \<in> set rs \<Longrightarrow> map chinese rs = filter (\<lambda>s. s \<noteq> []) (map strip tokens) \<Longrightarrow>
   chinese r \<noteq> [] \<and> \<not> py_isspace (hd (chinese r)) \<and> \<not> py_isspace (last (chinese r))"
proof -
  assume mem: "r \<in> set rs" and eq: "map chinese rs = filter (\<lambda>s. s \<noteq> []) (map strip tokens)"
  have "chinese r \<in> set (map chinese rs)" using mem by simp
  then have "chinese r \<in> set (filter (\<lambda>s. s \<noteq> []) (map strip tokens))" by (simp only: eq)
  then have "chinese r \<in> strip ` set tokens \<and> chinese r \<noteq> []" by simp
  then obtain token where "chinese r = strip token" "strip token \<noteq> []" by auto
  then show ?thesis using strip_hd strip_last by metis
qed

section \<open>The dictionary comprehension of the vocabulary list\<close>

lemma dict_setitem_map:
  "distinct ks \<Longrightarrow>
   dict_setitem (map (\<lambda>s. (s, f s)) ks) k v =
     (if k \<in> set ks then map (\<lambda>s. (s, (f(k := v)) s)) ks else map (\<lambda>s. (s, f s)) ks @ [(k, v)])"
  by (induction ks) auto

lemma keep_first_snoc:
  "rev (remdups (rev (ks @ [k]))) =
     (if k \<in> set ks then rev (remdups (rev ks)) else rev (remdups (rev ks)) @ [k])"
  by simp

lemma dict_comprehension:
  "foldl (\<lambda>d r. dict_setitem d (key r) r) [] xs =
     map (\<lambda>s. (s, last (filter (\<lambda>r. key r = s) xs))) (rev (remdups (rev (map key xs))))"
proof (induction xs rule: rev_induct)
  case Nil
  then show ?case by simp
next
  case (snoc x xs)
  let ?K = "rev (remdups (rev (map key xs)))"
  let ?F = "\<lambda>s. last (filter (\<lambda>r. key r = s) xs)"
  let ?F' = "\<lambda>s. last (filter (\<lambda>r. key r = s) (xs @ [x]))"
  have d: "distinct ?K" by simp
  have setK: "set ?K = key ` set xs" by simp
  have F': "?F' = (\<lambda>s. if key x = s then x else ?F s)" by (rule ext) simp
  have "foldl (\<lambda>d r. dict_setitem d (key r) r) [] (xs @ [x]) =
      dict_setitem (map (\<lambda>s. (s, ?F s)) ?K) (key x) x"
    using snoc.IH by simp
  also have "\<dots> = (if key x \<in> set ?K then map (\<lambda>s. (s, (?F(key x := x)) s)) ?K
                     else map (\<lambda>s. (s, ?F s)) ?K @ [(key x, x)])"
    by (rule dict_setitem_map[OF d])
  also have "\<dots> = map (\<lambda>s. (s, ?F' s)) (rev (remdups (rev (map key (xs @ [x])))))"
  proof (cases "key x \<in> key ` set xs")
    case True
    have "map (\<lambda>s. (s, (?F(key x := x)) s)) ?K = map (\<lambda>s. (s, ?F' s)) ?K"
      by (rule map_cong) (auto simp: F')
    then show ?thesis using True by (simp del: filter_append)
  next
    case False
    have "map (\<lambda>s. (s, ?F s)) ?K = map (\<lambda>s. (s, ?F' s)) ?K"
      by (rule map_cong) (use False in \<open>auto simp: F'\<close>)
    moreover have "?F' (key x) = x" by simp
    ultimately show ?thesis using False by (simp del: filter_append)
  qed
  finally show ?case .
qed

lemma unique_words_closed:
  "unique_words results =
     map (\<lambda>s. last (filter (\<lambda>r. chinese r = s) (chinese_words results)))
       (rev (remdups (rev (map chinese (chinese_words results)))))"
  by (simp add: unique_words_def dict_comprehension comp_def)

section \<open>Runs with the test doubles\<close>

lemma demo_pinyin: "get_pinyin demo_env word = word"
  by (induction word) (simp_all add: get_pinyin_def demo_env_def)

lemma demo_lookups:
  "get_hsk_level demo_env word = (1, 1)" "get_character_breakdown demo_env word = None"
  by (simp_all add: demo_env_def)

lemma demo_word_failed:
  assumes "is_chinese token" and "strip token = token" and "d token = None"
  shows "process_word demo_env token (rs, \<lparr>cache = d, translator = Suc n, log = evs\<rparr>) =
     (rs @ [demo_record token (ascii ''?'')],
      \<lparr>cache = d, translator = n,
       log = evs @ [Pinyin_call token, Translate_call token,
                    Print (translate_warning token (ascii ''timeout'')),
                    Hsk_level_call token, Breakdown_call token]\<rparr>)"
proof -
  have c: "is_chinese (strip token)" using assms(1,2) by simp
  have n: "cache \<lparr>cache = d, translator = Suc n, log = evs\<rparr> (strip token) = None"
    using assms(2,3) by simp
  have t: "translator_translate demo_env (translator \<lparr>cache = d, translator = Suc n, log = evs\<rparr>)
      (strip token) = (Inl (ascii ''timeout''), n)"
    by (simp add: demo_env_def demo_translate_def)
  show ?thesis
    by (simp add: process_word_failed[OF c n t] assms(2) demo_pinyin demo_record_def demo_lookups)
qed

lemma demo_word_translated:
  assumes "is_chinese token" and "strip token = token" and "d token = None"
  shows "process_word demo_env token (rs, \<lparr>cache = d, translator = 0, log = evs\<rparr>) =
     (rs @ [demo_record token (ascii ''nl:'' @ token)],
      \<lparr>cache = d(token \<mapsto> ascii ''nl:'' @ token), translator = 0,
       log = evs @ [Pinyin_call token, Translate_call token,
                    Hsk_level_call token, Breakdown_call token]\<rparr>)"
proof -
  have c: "is_chinese (strip token)" using assms(1,2) by simp
  have n: "cache \<lparr>cache = d, translator = 0::nat, log = evs\<rparr> (strip token) = None"
    using assms(2,3) by simp
  have t: "translator_translate demo_env (translator \<lparr>cache = d, translator = 0::nat, log = evs\<rparr>)
      (strip token) = (Inr (ascii ''nl:'' @ token), 0)"
    by (simp add: demo_env_def demo_translate_def assms(2))
  show ?thesis
    by (simp add: process_word_translated[OF c n t] assms(2) demo_pinyin demo_record_def demo_lookups)
qed

lemma demo_word_hit:
  assumes "is_chinese token" and "strip token = token" and "d token = Some g"
  shows "process_word demo_env token (rs, \<lparr>cache = d, translator = n, log = evs\<rparr>) =
     (rs @ [demo_record token g],
      \<lparr>cache = d, translator = n,
       log = evs @ [Pinyin_call token, Hsk_level_call token, Breakdown_call token]\<rparr>)"
proof -
  have c: "is_chinese (strip token)" using assms(1,2) by simp
  have n: "cache \<lparr>cache = d, translator = n, log = evs\<rparr> (strip token) = Some g"
    using assms(2,3) by simp
  show ?thesis
    by (simp add: process_word_hit[OF c n] assms(2) demo_pinyin demo_record_def demo_lookups)
qed

lemma demo_tokens:
  "is_chinese ni_hao" "strip ni_hao = ni_hao" "is_chinese shi_jie" "strip shi_jie = shi_jie"
  "strip [0x20] = []" "strip [0xFF0C] = [0xFF0C]" "\<not> is_chinese [0xFF0C]" "ni_hao \<noteq> shi_jie"
  "shi_jie \<noteq> ni_hao"
  by (simp_all add: ni_hao_def shi_jie_def strip_def py_isspace_def)

lemma demo_segmentation:
  "demo_cut (ni_hao @ [0x20, 0xFF0C] @ shi_jie) = [ni_hao, [0x20], [0xFF0C], shi_jie]"
  "demo_cut (ni_hao @ ni_hao) = [ni_hao, ni_hao]"
  by (simp_all add: ni_hao_def shi_jie_def)

lemma demo_loop_ok:
  "process_words demo_env [ni_hao, [0x20], [0xFF0C], shi_jie]
     ([], \<lparr>cache = Map.empty, translator = 0, log = []\<rparr>) =
   ([demo_record ni_hao (ascii ''nl:'' @ ni_hao), comma_record,
     demo_record shi_jie (ascii ''nl:'' @ shi_jie)],
    \<lparr>cache = [ni_hao \<mapsto> ascii ''nl:'' @ ni_hao, shi_jie \<mapsto> ascii ''nl:'' @ shi_jie],
     translator = 0,
     log = [Pinyin_call ni_hao, Translate_call ni_hao, Hsk_level_call ni_hao,
            Breakdown_call ni_hao, Pinyin_call shi_jie, Translate_call shi_jie,
            Hsk_level_call shi_jie, Breakdown_call shi_jie]\<rparr>)"
  by (simp add: demo_word_translated demo_tokens process_word_blank process_word_other
      comma_record_def)

lemma demo_loop_failing:
  "process_words demo_env [ni_hao, [0x20], [0xFF0C], shi_jie]
     ([], \<lparr>cache = Map.empty, translator = 1, log = []\<rparr>) =
   ([demo_record ni_hao (ascii ''?''), comma_record,
     demo_record shi_jie (ascii ''nl:'' @ shi_jie)],
    \<lparr>cache = [shi_jie \<mapsto> ascii ''nl:'' @ shi_jie],
     translator = 0,
     log = [Pinyin_call ni_hao, Translate_call ni_hao,
            Print (translate_warning ni_hao (ascii ''timeout'')), Hsk_level_call ni_hao,
            Breakdown_call ni_hao, Pinyin_call shi_jie, Translate_call shi_jie,
            Hsk_level_call shi_jie, Breakdown_call shi_jie]\<rparr>)"
  using demo_word_failed[of ni_hao Map.empty "[]" 0 "[]"]
  by (simp add: demo_word_translated demo_tokens process_word_blank process_word_other
      comma_record_def)

section \<open>Running the text again\<close>

lemma process_words_Cons:
  "process_words env (token # tokens) ([], st) =
     (fst (process_word env token ([], st))
        @ fst (process_words env tokens ([], snd (process_word env token ([], st)))),
      snd (process_words env tokens ([], snd (process_word env token ([], st)))))"
proof -
  let ?p = "process_word env token ([], st)"
  have "process_words env (token # tokens) ([], st) = process_words env tokens (fst ?p, snd ?p)"
    by simp
  then show ?thesis using process_words_shift[of env tokens "fst ?p" "snd ?p"] by simp
qed

lemma process_text_saved:
  assumes "load_translation_cache (cache_file w) = Inr d" and "write_fault w = None"
      and "process_words env (segment_text env chinese_text)
             ([], \<lparr>cache = d, translator = service w, log = []\<rparr>) = (results, st)"
  shows "process_text env chinese_text w =
     Inr (results, log st, w\<lparr>service := translator st, cache_file := Present (Parsed (cache st))\<rparr>)"
  using assms by (simp add: process_text_run[OF assms(1)] save_written)

lemma no_events:
  "\<exists>evs. st = st\<lparr>log := log st @ evs\<rparr> \<and> (\<forall>word. Translate_call word \<notin> set evs)"
  by (rule exI[of _ "[]"]) simp

lemma process_word_rerun:
  assumes "\<forall>word e. Print (translate_warning word e) \<notin> set (log (snd (process_word env token ([], st1))))"
      and "cache (snd (process_word env token ([], st1))) \<subseteq>\<^sub>m cache st2"
  shows "fst (process_word env token ([], st2)) = fst (process_word env token ([], st1))
       \<and> (\<exists>evs. snd (process_word env token ([], st2)) = st2\<lparr>log := log st2 @ evs\<rparr>
                \<and> (\<forall>word. Translate_call word \<notin> set evs))"
proof (cases "is_chinese (strip token)")
  case False
  then show ?thesis
    by (cases "strip token = []") (simp_all add: process_word_blank process_word_other no_events)
next
  case True
  show ?thesis
  proof (cases "cache st1 (strip token)")
    case (Some g)
    have p1: "process_word env token ([], st1) =
       ([] @ [\<lparr>chinese = strip token, pinyin = get_pinyin env (strip token), dutch = g,
              hsk_level = fst (get_hsk_level env (strip token)),
              frequency = snd (get_hsk_level env (strip token)),
              breakdown = get_character_breakdown env (strip token),
              is_chinese_key = True\<rparr>],
        st1\<lparr>log := log st1 @ [Pinyin_call (strip token), Hsk_level_call (strip token),
                           Breakdown_call (strip token)]\<rparr>)"
      by (rule process_word_hit[OF True Some])
    have c2: "cache st2 (strip token) = Some g"
      using assms(2) Some by (auto simp: p1 map_le_def dom_def)
    have p2: "process_word env token ([], st2) =
       ([] @ [\<lparr>chinese = strip token, pinyin = get_pinyin env (strip token), dutch = g,
              hsk_level = fst (get_hsk_level env (strip token)),
              frequency = snd (get_hsk_level env (strip token)),
              breakdown = get_character_breakdown env (strip token),
              is_chinese_key = True\<rparr>],
        st2\<lparr>log := log st2 @ [Pinyin_call (strip token), Hsk_level_call (strip token),
                           Breakdown_call (strip token)]\<rparr>)"
      by (rule process_word_hit[OF True c2])
    show ?thesis unfolding p1 p2 by auto
  next
    case None
    obtain res t' where tr: "translator_translate env (translator st1) (strip token) = (res, t')"
      by (cases "translator_translate env (translator st1) (strip token)") auto
    show ?thesis
    proof (cases res)
      case (Inl e)
      have "Print (translate_warning (strip token) e) \<in> set (log (snd (process_word env token ([], st1))))"
        using process_word_failed[OF True None, of env e t' "[]"] tr Inl by simp
      then show ?thesis using assms(1) by blast
    next
      case (Inr g)
      have p1: "process_word env token ([], st1) =
         ([] @ [\<lparr>chinese = strip token, pinyin = get_pinyin env (strip token), dutch = g,
              hsk_level = fst (get_hsk_level env (strip token)),
              frequency = snd (get_hsk_level env (strip token)),
              breakdown = get_character_breakdown env (strip token),
              is_chinese_key = True\<rparr>],
          st1\<lparr>cache := (cache st1)(strip token \<mapsto> g), translator := t',
             log := log st1 @ [Pinyin_call (strip token), Translate_call (strip token),
                           Hsk_level_call (strip token), Breakdown_call (strip token)]\<rparr>)"
        using process_word_translated[OF True None, of env g t' "[]"] tr Inr by simp
      have c2: "cache st2 (strip token) = Some g"
        using assms(2) by (auto simp: p1 map_le_def dom_def)
      have p2: "process_word env token ([], st2) =
         ([] @ [\<lparr>chinese = strip token, pinyin = get_pinyin env (strip token), dutch = g,
              hsk_level = fst (get_hsk_level env (strip token)),
              frequency = snd (get_hsk_level env (strip token)),
              breakdown = get_character_breakdown env (strip token),
              is_chinese_key = True\<rparr>],
          st2\<lparr>log := log st2 @ [Pinyin_call (strip token), Hsk_level_call (strip token),
                           Breakdown_call (strip token)]\<rparr>)"
        by (rule process_word_hit[OF True c2])
      show ?thesis unfolding p1 p2 by auto
    qed
  qed
qed

lemma process_words_rerun:
  assumes "\<forall>word e. Print (translate_warning word e) \<notin> set (log (snd (process_words env tokens ([], st1))))"
      and "cache (snd (process_words env tokens ([], st1))) \<subseteq>\<^sub>m cache st2"
  shows "fst (process_words env tokens ([], st2)) = fst (process_words env tokens ([], st1))
       \<and> (\<exists>evs. snd (process_words env tokens ([], st2)) = st2\<lparr>log := log st2 @ evs\<rparr>
                \<and> (\<forall>word. Translate_call word \<notin> set evs))"
  using assms
proof (induction tokens arbitrary: st1 st2)
  case Nil
  show ?case by (simp add: no_events)
next
  case (Cons token tokens)
  let ?p1 = "process_word env token ([], st1)"
  let ?p2 = "process_word env token ([], st2)"
  let ?f1 = "snd (process_words env tokens ([], snd ?p1))"
  have f1: "snd (process_words env (token # tokens) ([], st1)) = ?f1"
    by (simp only: process_words_Cons snd_conv)
  obtain evs where lg: "log ?f1 = log (snd ?p1) @ evs"
    using process_words_log[of env tokens "([], snd ?p1)"] by auto
  have w1: "\<forall>word e. Print (translate_warning word e) \<notin> set (log (snd ?p1))"
    using Cons.prems(1) unfolding f1 lg by simp
  have "cache (snd ?p1) \<subseteq>\<^sub>m cache ?f1"
    using process_words_cache_mono[of "([], snd ?p1)" env tokens] by simp
  then have c1: "cache (snd ?p1) \<subseteq>\<^sub>m cache st2"
    using Cons.prems(2) unfolding f1 by (rule map_le_trans)
  obtain e1 where one: "fst ?p2 = fst ?p1" "snd ?p2 = st2\<lparr>log := log st2 @ e1\<rparr>"
      "\<forall>word. Translate_call word \<notin> set e1"
    using process_word_rerun[OF w1 c1] by blast
  have w1': "\<forall>word e. Print (translate_warning word e) \<notin> set (log ?f1)"
    using Cons.prems(1) unfolding f1 .
  have c1': "cache ?f1 \<subseteq>\<^sub>m cache (snd ?p2)"
    using Cons.prems(2) unfolding f1 by (simp add: one(2))
  obtain e2 where rest: "fst (process_words env tokens ([], snd ?p2)) = fst (process_words env tokens ([], snd ?p1))"
      "snd (process_words env tokens ([], snd ?p2)) = (snd ?p2)\<lparr>log := log (snd ?p2) @ e2\<rparr>"
      "\<forall>word. Translate_call word \<notin> set e2"
    using Cons.IH[OF w1' c1'] by blast
  have s: "snd (process_words env (token # tokens) ([], st2)) = st2\<lparr>log := log st2 @ (e1 @ e2)\<rparr>"
    unfolding process_words_Cons using rest(2) by (simp add: one(2))
  have n: "\<forall>word. Translate_call word \<notin> set (e1 @ e2)" using one(3) rest(3) by simp
  have r: "fst (process_words env (token # tokens) ([], st2)) = fst (process_words env (token # tokens) ([], st1))"
    unfolding process_words_Cons using rest(1) one(1) by simp
  show ?case using s n r by blast
qed

section \<open>Evaluated runs of the pipeline\<close>

lemma demo_segment: "segment_text demo_env s = demo_cut s"
  by (simp add: segment_text_def demo_env_def)

lemma demo_loop_twice_failing:
  "process_words demo_env [ni_hao, ni_hao]
     ([], \<lparr>cache = Map.empty, translator = Suc (Suc 0), log = []\<rparr>) =
   ([demo_record ni_hao (ascii ''?''), demo_record ni_hao (ascii ''?'')],
    \<lparr>cache = Map.empty, translator = 0,
     log = [Pinyin_call ni_hao, Translate_call ni_hao,
            Print (translate_warning ni_hao (ascii ''timeout'')), Hsk_level_call ni_hao,
            Breakdown_call ni_hao, Pinyin_call ni_hao, Translate_call ni_hao,
            Print (translate_warning ni_hao (ascii ''timeout'')), Hsk_level_call ni_hao,
            Breakdown_call ni_hao]\<rparr>)"
  by (simp add: demo_word_failed demo_tokens)

lemma demo_loop_failing_once:
  "process_words demo_env [ni_hao, ni_hao]
     ([], \<lparr>cache = Map.empty, translator = Suc 0, log = []\<rparr>) =
   ([demo_record ni_hao (ascii ''?''), demo_record ni_hao (ascii ''nl:'' @ ni_hao)],
    \<lparr>cache = [ni_hao \<mapsto> ascii ''nl:'' @ ni_hao], translator = 0,
     log = [Pinyin_call ni_hao, Translate_call ni_hao,
            Print (translate_warning ni_hao (ascii ''timeout'')), Hsk_level_call ni_hao,
            Breakdown_call ni_hao, Pinyin_call ni_hao, Translate_call ni_hao,
            Hsk_level_call ni_hao, Breakdown_call ni_hao]\<rparr>)"
  by (simp add: demo_word_failed demo_word_translated demo_tokens)

lemma demo_loop_again:
  "process_words demo_env [ni_hao, [0x20], [0xFF0C], shi_jie]
     ([], \<lparr>cache = [ni_hao \<mapsto> ascii ''nl:'' @ ni_hao, shi_jie \<mapsto> ascii ''nl:'' @ shi_jie],
          translator = 0, log = []\<rparr>) =
   ([demo_record ni_hao (ascii ''nl:'' @ ni_hao), comma_record,
     demo_record shi_jie (ascii ''nl:'' @ shi_jie)],
    \<lparr>cache = [ni_hao \<mapsto> ascii ''nl:'' @ ni_hao, shi_jie \<mapsto> ascii ''nl:'' @ shi_jie],
     translator = 0,
     log = [Pinyin_call ni_hao, Hsk_level_call ni_hao, Breakdown_call ni_hao,
            Pinyin_call shi_jie, Hsk_level_call shi_jie, Breakdown_call shi_jie]\<rparr>)"
  by (simp add: demo_word_hit demo_tokens process_word_blank process_word_other
      comma_record_def)

lemma demo_loop_after_failure:
  "process_words demo_env [ni_hao, [0x20], [0xFF0C], shi_jie]
     ([], \<lparr>cache = [shi_jie \<mapsto> ascii ''nl:'' @ shi_jie], translator = 0, log = []\<rparr>) =
   ([demo_record ni_hao (ascii ''nl:'' @ ni_hao), comma_record,
     demo_record shi_jie (ascii ''nl:'' @ shi_jie)],
    \<lparr>cache = [shi_jie \<mapsto> ascii ''nl:'' @ shi_jie, ni_hao \<mapsto> ascii ''nl:'' @ ni_hao],
     translator = 0,
     log = [Pinyin_call ni_hao, Translate_call ni_hao, Hsk_level_call ni_hao,
            Breakdown_call ni_hao,
            Pinyin_call shi_jie, Hsk_level_call shi_jie, Breakdown_call shi_jie]\<rparr>)"
  by (simp add: demo_word_hit demo_word_translated demo_tokens process_word_blank
      process_word_other comma_record_def)

lemma demo_run:
  assumes "demo_cut s = tokens"
      and "process_words demo_env tokens ([], \<lparr>cache = d, translator = n, log = []\<rparr>) = (results, st)"
      and "load_translation_cache cf = Inr d"
  shows "process_text demo_env s \<lparr>cache_file = cf, write_fault = None, service = n\<rparr> =
     Inr (results, log st,
          \<lparr>cache_file = Present (Parsed (cache st)), write_fault = None, service = translator st\<rparr>)"
proof -
  have a: "load_translation_cache (cache_file \<lparr>cache_file = cf, write_fault = None, service = n\<rparr>) = Inr d"
    using assms(3) by simp
  have b: "write_fault \<lparr>cache_file = cf, write_fault = None, service = n\<rparr> = None" by simp
  have c: "process_words demo_env (segment_text demo_env s)
      ([], \<lparr>cache = d, translator = service \<lparr>cache_file = cf, write_fault = None, service = n\<rparr>,
            log = []\<rparr>) = (results, st)"
    using assms(1,2) by (simp add: demo_segment)
  show ?thesis using process_text_saved[OF a b c] by simp
qed

lemma demo_loads:
  "load_translation_cache Missing = Inr Map.empty"
  "load_translation_cache (Present (Parsed d)) = Inr d"
  by simp_all

lemma demo_run_ok:
  "process_text demo_env (ni_hao @ [0x20, 0xFF0C] @ shi_jie) (demo_world 0) =
   Inr ([demo_record ni_hao (ascii ''nl:'' @ ni_hao), comma_record,
         demo_record shi_jie (ascii ''nl:'' @ shi_jie)],
        [Pinyin_call ni_hao, Translate_call ni_hao, Hsk_level_call ni_hao,
         Breakdown_call ni_hao, Pinyin_call shi_jie, Translate_call shi_jie,
         Hsk_level_call shi_jie, Breakdown_call shi_jie],
        \<lparr>cache_file = Present (Parsed [ni_hao \<mapsto> ascii ''nl:'' @ ni_hao,
                                         shi_jie \<mapsto> ascii ''nl:'' @ shi_jie]),
         write_fault = None, service = 0\<rparr>)"
  using demo_run[OF demo_segmentation(1) demo_loop_ok demo_loads(1)]
  by (simp add: demo_world_def)

lemma demo_run_again:
  "process_text demo_env (ni_hao @ [0x20, 0xFF0C] @ shi_jie)
     \<lparr>cache_file = Present (Parsed [ni_hao \<mapsto> ascii ''nl:'' @ ni_hao,
                                      shi_jie \<mapsto> ascii ''nl:'' @ shi_jie]),
      write_fault = None, service = 0\<rparr> =
   Inr ([demo_record ni_hao (ascii ''nl:'' @ ni_hao), comma_record,
         demo_record shi_jie (ascii ''nl:'' @ shi_jie)],
        [Pinyin_call ni_hao, Hsk_level_call ni_hao, Breakdown_call ni_hao,
         Pinyin_call shi_jie, Hsk_level_call shi_jie, Breakdown_call shi_jie],
        \<lparr>cache_file = Present (Parsed [ni_hao \<mapsto> ascii ''nl:'' @ ni_hao,
                                         shi_jie \<mapsto> ascii ''nl:'' @ shi_jie]),
         write_fault = None, service = 0\<rparr>)"
  using demo_run[OF demo_segmentation(1) demo_loop_again demo_loads(2)]
  by simp

lemma demo_run_failing:
  "process_text demo_env (ni_hao @ [0x20, 0xFF0C] @ shi_jie) (demo_world 1) =
   Inr ([demo_record ni_hao (ascii ''?''), comma_record,
         demo_record shi_jie (ascii ''nl:'' @ shi_jie)],
        [Pinyin_call ni_hao, Translate_call ni_hao,
         Print (translate_warning ni_hao (ascii ''timeout'')), Hsk_level_call ni_hao,
         Breakdown_call ni_hao, Pinyin_call shi_jie, Translate_call shi_jie,
         Hsk_level_call shi_jie, Breakdown_call shi_jie],
        \<lparr>cache_file = Present (Parsed [shi_jie \<mapsto> ascii ''nl:'' @ shi_jie]),
         write_fault = None, service = 0\<rparr>)"
  using demo_run[OF demo_segmentation(1) demo_loop_failing demo_loads(1)]
  by (simp add: demo_world_def)

lemma demo_run_after_failure:
  "process_text demo_env (ni_hao @ [0x20, 0xFF0C] @ shi_jie)
     \<lparr>cache_file = Present (Parsed [shi_jie \<mapsto> ascii ''nl:'' @ shi_jie]),
      write_fault = None, service = 0\<rparr> =
   Inr ([demo_record ni_hao (ascii ''nl:'' @ ni_hao), comma_record,
         demo_record shi_jie (ascii ''nl:'' @ shi_jie)],
        [Pinyin_call ni_hao, Translate_call ni_hao, Hsk_level_call ni_hao,
         Breakdown_call ni_hao,
         Pinyin_call shi_jie, Hsk_level_call shi_jie, Breakdown_call shi_jie],
        \<lparr>cache_file = Present (Parsed [shi_jie \<mapsto> ascii ''nl:'' @ shi_jie,
                                         ni_hao \<mapsto> ascii ''nl:'' @ ni_hao]),
         write_fault = None, service = 0\<rparr>)"
  using demo_run[OF demo_segmentation(1) demo_loop_after_failure demo_loads(2)]
  by simp

lemma demo_run_twice_failing:
  "process_text demo_env (ni_hao @ ni_hao) (demo_world 2) =
   Inr ([demo_record ni_hao (ascii ''?''), demo_record ni_hao (ascii ''?'')],
        [Pinyin_call ni_hao, Translate_call ni_hao,
         Print (translate_warning ni_hao (ascii ''timeout'')), Hsk_level_call ni_hao,
         Breakdown_call ni_hao, Pinyin_call ni_hao, Translate_call ni_hao,
         Print (translate_warning ni_hao (ascii ''timeout'')), Hsk_level_call ni_hao,
         Breakdown_call ni_hao],
        \<lparr>cache_file = Present (Parsed Map.empty), write_fault = None, service = 0\<rparr>)"
  using demo_run[OF demo_segmentation(2) demo_loop_twice_failing demo_loads(1)]
  by (simp add: demo_world_def numeral_2_eq_2)

lemma demo_run_failing_once:
  "process_text demo_env (ni_hao @ ni_hao) (demo_world 1) =
   Inr ([demo_record ni_hao (ascii ''?''), demo_record ni_hao (ascii ''nl:'' @ ni_hao)],
        [Pinyin_call ni_hao, Translate_call ni_hao,
         Print (translate_warning ni_hao (ascii ''timeout'')), Hsk_level_call ni_hao,
         Breakdown_call ni_hao, Pinyin_call ni_hao, Translate_call ni_hao,
         Hsk_level_call ni_hao, Breakdown_call ni_hao],
        \<lparr>cache_file = Present (Parsed [ni_hao \<mapsto> ascii ''nl:'' @ ni_hao]),
         write_fault = None, service = 0\<rparr>)"
  using demo_run[OF demo_segmentation(2) demo_loop_failing_once demo_loads(1)]
  by (simp add: demo_world_def)

section \<open>The claims of the specification\<close>

text \<open>
  Claim C9. \<open>is_chinese\<close> holds of a token exactly when one of its characters has a
  code point from U+4E00 to U+9FFF, both ends included, whatever the other
  characters are. The function is total: it has a value on every string.
\<close>

theorem is_chinese_range:
  "is_chinese s \<longleftrightarrow> (\<exists>c \<in> set s. 0x4E00 \<le> c \<and> c \<le> 0x9FFF)"
  by (rule is_chinese_iff)

theorem is_chinese_range_witness:
  "is_chinese [0x32, 0x30, 0x32, 0x33, 0x5E74] \<and> \<not> is_chinese [0x32, 0x30, 0x32, 0x33]
   \<and> is_chinese [0x4E00] \<and> is_chinese [0x9FFF] \<and> \<not> is_chinese [0x4DFF, 0xA000]"
  using is_chinese_range[of "[0x32, 0x30, 0x32, 0x33, 0x5E74]"]
    is_chinese_range[of "[0x32, 0x30, 0x32, 0x33]"] is_chinese_range[of "[0x4E00]"]
    is_chinese_range[of "[0x9FFF]"] is_chinese_range[of "[0x4DFF, 0xA000]"]
  by simp

text \<open>
  Claim C6. Loading does fail: a cache file whose bytes are not UTF-8 makes
  \<open>json.load\<close> raise \<open>UnicodeDecodeError\<close>, which the handler of
  \<open>load_translation_cache\<close> does not name, so the exception leaves the function
  and ends \<open>process_text\<close> before a single token is annotated.
\<close>

theorem load_raises_on_undecodable_cache:
  "load_translation_cache (Present (Raises UnicodeDecodeError)) = Inl UnicodeDecodeError
   \<and> process_text demo_env ni_hao
        \<lparr>cache_file = Present (Raises UnicodeDecodeError), write_fault = None, service = 0\<rparr>
       = Inl UnicodeDecodeError"
  by (simp add: process_text_raises)

text \<open>
  Claim C5. \<open>main\<close> ends with \<open>sys.exit(1)\<close> when the input file holds nothing
  but whitespace: it prints one message, and the pipeline is not entered (no
  collaborator is called, the cache file is neither read nor written). Input that
  cannot be read or decoded ends \<open>main\<close> with the exception, in the same state.
\<close>

theorem empty_input_is_fatal:
  "(strip file_text = [] \<longrightarrow>
      main env (Inr file_text) w = (Inl (SystemExit 1), [Print empty_input_message], w))
   \<and> main env (Inl e) w = (Inl (Uncaught e), [], w)"
  by (simp add: main_def)

theorem empty_input_is_fatal_witness:
  "main demo_env (Inr [0x20, 0x0A]) (demo_world 0) =
     (Inl (SystemExit 1), [Print empty_input_message], demo_world 0)
   \<and> main demo_env (Inr []) (demo_world 0) =
     (Inl (SystemExit 1), [Print empty_input_message], demo_world 0)
   \<and> main demo_env (Inl UnicodeDecodeError) (demo_world 0) =
     (Inl (Uncaught UnicodeDecodeError), [], demo_world 0)"
  using empty_input_is_fatal[of "[0x20, 0x0A]" demo_env "demo_world 0" UnicodeDecodeError]
    empty_input_is_fatal[of "[]" demo_env "demo_world 0" UnicodeDecodeError]
  by (simp add: strip_def py_isspace_def)

text \<open>
  Claim C8. A token that is not empty after stripping and holds no ideograph gets
  a record whose transcription and gloss are its surface, with level 0, frequency
  0 and no breakdown; the state of the run is the same after it as before, so the
  translator was not called, the cache is as it was, and nothing was logged for
  any collaborator.
\<close>

theorem other_token_passes_through:
  assumes "strip token \<noteq> []" and "\<not> is_chinese (strip token)"
  shows "\<exists>r. process_word env token (rs, st) = (rs @ [r], st)
           \<and> chinese r = strip token \<and> pinyin r = chinese r \<and> dutch r = chinese r
           \<and> hsk_level r = 0 \<and> frequency r = 0 \<and> breakdown r = None \<and> \<not> is_chinese_key r"
  using assms by (simp add: process_word_other)

theorem other_token_passes_through_witness:
  "process_word demo_env [0x20, 0xFF0C] ([], \<lparr>cache = Map.empty, translator = 0, log = []\<rparr>) =
     ([comma_record], \<lparr>cache = Map.empty, translator = 0, log = []\<rparr>)
   \<and> pinyin comma_record = chinese comma_record \<and> dutch comma_record = chinese comma_record"
proof -
  have s: "strip [0x20, 0xFF0C] = [0xFF0C]" by (simp add: strip_def py_isspace_def)
  have a: "strip [0x20, 0xFF0C] \<noteq> []" and b: "\<not> is_chinese (strip [0x20, 0xFF0C])"
    by (simp_all add: s)
  obtain r where r: "process_word demo_env [0x20, 0xFF0C]
        ([], \<lparr>cache = Map.empty, translator = 0, log = []\<rparr>) =
        ([] @ [r], \<lparr>cache = Map.empty, translator = 0, log = []\<rparr>)"
      "chinese r = strip [0x20, 0xFF0C]" "pinyin r = chinese r" "dutch r = chinese r"
      "hsk_level r = 0" "frequency r = 0" "breakdown r = None" "\<not> is_chinese_key r"
    using other_token_passes_through[OF a b] by blast
  have "r = comma_record" using r(2-8) by (cases r) (simp add: comma_record_def s)
  then show ?thesis using r by simp
qed

text \<open>
  Claim C7. An entry of the cache at any moment of the loop is an entry of the
  cache, with the same value, at every later moment of the same loop: the cache
  after the tokens \<open>before\<close> is contained in the cache after \<open>before @ after\<close>.
  \<open>process_text\<close> saves the cache the loop ends with.
\<close>

theorem cache_is_additive:
  assumes "cache (snd (process_words env before rs)) word = Some g"
  shows "cache (snd (process_words env (before @ after) rs)) word = Some g"
proof -
  have "cache (snd (process_words env before rs))
      \<subseteq>\<^sub>m cache (snd (process_words env after (process_words env before rs)))"
    by (rule process_words_cache_mono)
  then show ?thesis using assms by (auto simp: process_words_append map_le_def dom_def)
qed

theorem cache_is_additive_witness:
  "cache (snd (process_words demo_env [ni_hao]
      ([], \<lparr>cache = Map.empty, translator = 0, log = []\<rparr>))) ni_hao = Some (ascii ''nl:'' @ ni_hao)
   \<and> cache (snd (process_words demo_env ([ni_hao] @ [ni_hao, shi_jie])
      ([], \<lparr>cache = Map.empty, translator = 0, log = []\<rparr>))) ni_hao = Some (ascii ''nl:'' @ ni_hao)"
proof -
  have a: "cache (snd (process_words demo_env [ni_hao]
      ([], \<lparr>cache = Map.empty, translator = 0, log = []\<rparr>))) ni_hao = Some (ascii ''nl:'' @ ni_hao)"
    by (simp add: demo_word_translated demo_tokens)
  show ?thesis using cache_is_additive[OF a, of "[ni_hao, shi_jie]"] a by simp
qed

end
